theory Spec2Isabelle
  imports Main "HOL-Library.Sublist"
begin

section \<open>Strings: decimal rendering and global replacement\<close>

text \<open>
  The studio script builds element ids by string concatenation
  (\<^verbatim>\<open>"#question-" + pid + "-" + index\<close>), where \<^verbatim>\<open>index\<close> is a JavaScript number
  counting up from 0: it is rendered in decimal. \<open>dec\<close> is that rendering.
\<close>

definition digit :: "nat \<Rightarrow> char" where
  "digit d = char_of (48 + d)"

fun dec :: "nat \<Rightarrow> string" where
  "dec n = (if n < 10 then [digit n] else dec (n div 10) @ [digit (n mod 10)])"

declare dec.simps [simp del]

text \<open>
  \<^verbatim>\<open>row.replace(/PID/g, pid)\<close>: a global replacement of a literal token, scanning from the
  left and continuing after each match. The problem id is an INGInious identifier
  (letters, digits, \<^verbatim>\<open>_\<close> and \<^verbatim>\<open>-\<close>) and the index is a decimal number, so the replacement
  text holds no \<^verbatim>\<open>$\<close> pattern and is inserted as it is.
\<close>

function replace_all :: "string \<Rightarrow> string \<Rightarrow> string \<Rightarrow> string" where
  "replace_all pat rep [] = []"
| "replace_all pat rep (c # cs) =
     (if pat \<noteq> [] \<and> prefix pat (c # cs)
      then rep @ replace_all pat rep (drop (length pat) (c # cs))
      else c # replace_all pat rep cs)"
  by pat_completeness auto
termination
  by (relation "measure (\<lambda>(pat, rep, s). length s)") (auto simp: neq_Nil_conv)

section \<open>The page: a tree of elements addressed by paths\<close>

text \<open>
  The only state of the widget is the live DOM. An element carries what the scripts read
  and write: its id, its classes, the \<^verbatim>\<open>checked\<close> attribute and the value of a form control.
  A reference to an element (a jQuery object holds such references) is the path of child
  positions leading to it from the document node.
\<close>

record attrs =
  a_id :: "string option"
  a_class :: "string list"
  a_checked :: bool
  a_value :: string

datatype node = Node (attrs_of: attrs) (kids: "node list")

type_synonym path = "nat list"

definition plain :: attrs where
  "plain = \<lparr>a_id = None, a_class = [], a_checked = False, a_value = []\<rparr>"

fun node_at :: "node \<Rightarrow> path \<Rightarrow> node option" where
  "node_at n [] = Some n"
| "node_at n (i # p) = (if i < length (kids n) then node_at (kids n ! i) p else None)"

definition attrs_at :: "node \<Rightarrow> path \<Rightarrow> attrs option" where
  "attrs_at d p = map_option attrs_of (node_at d p)"

fun modify_at :: "(node \<Rightarrow> node) \<Rightarrow> path \<Rightarrow> node \<Rightarrow> node" where
  "modify_at f [] n = f n"
| "modify_at f (i # p) n =
     (if i < length (kids n)
      then Node (attrs_of n) ((kids n)[i := modify_at f p (kids n ! i)])
      else n)"

definition set_attrs :: "(attrs \<Rightarrow> attrs) \<Rightarrow> path \<Rightarrow> node \<Rightarrow> node" where
  "set_attrs g = modify_at (\<lambda>n. Node (g (attrs_of n)) (kids n))"

definition append_child :: "path \<Rightarrow> node \<Rightarrow> node \<Rightarrow> node" where
  "append_child t c = modify_at (\<lambda>n. Node (attrs_of n) (kids n @ [c])) t"

fun remove_at :: "path \<Rightarrow> node \<Rightarrow> node" where
  "remove_at [] n = n"
| "remove_at [i] n = Node (attrs_of n) (take i (kids n) @ drop (Suc i) (kids n))"
| "remove_at (i # p) n =
     (if i < length (kids n)
      then Node (attrs_of n) ((kids n)[i := remove_at p (kids n ! i)])
      else n)"

definition n_kids :: "path \<Rightarrow> node \<Rightarrow> nat" where
  "n_kids t d = (case node_at d t of None \<Rightarrow> 0 | Some n \<Rightarrow> length (kids n))"

text \<open>The descendants of a node in document order, each with its path from that node.\<close>

fun elements :: "node \<Rightarrow> (path \<times> attrs) list"
  and elements_from :: "nat \<Rightarrow> node list \<Rightarrow> (path \<times> attrs) list" where
  "elements (Node a ks) = elements_from 0 ks"
| "elements_from i [] = []"
| "elements_from i (k # ks) =
     ([i], attrs_of k) # map (\<lambda>(p, b). (i # p, b)) (elements k) @ elements_from (Suc i) ks"

definition select :: "(attrs \<Rightarrow> bool) \<Rightarrow> node \<Rightarrow> path list" where
  "select P n = map fst (filter (\<lambda>(p, a). P a) (elements n))"

subsection \<open>The jQuery calls the scripts make\<close>

definition has_id :: "string \<Rightarrow> attrs \<Rightarrow> bool" where
  "has_id s a = (a_id a = Some s)"

definition has_class :: "string \<Rightarrow> attrs \<Rightarrow> bool" where
  "has_class c a = (c \<in> set (a_class a))"

text \<open>
  \<^verbatim>\<open>$("#id")\<close> without a context is \<^verbatim>\<open>document.getElementById\<close>: at most one element, the
  first in document order. Problem ids and indices hold no character that a CSS selector
  treats specially, so \<^verbatim>\<open>"#" + id\<close> selects by the whole id.
\<close>

definition jq_id :: "string \<Rightarrow> node \<Rightarrow> path list" where
  "jq_id s d = take 1 (select (has_id s) d)"

text \<open>\<^verbatim>\<open>$(selector, context)\<close>: every descendant of a context element that matches.\<close>

definition jq_find :: "(attrs \<Rightarrow> bool) \<Rightarrow> path list \<Rightarrow> node \<Rightarrow> path list" where
  "jq_find P ctx d =
     concat (map (\<lambda>c. case node_at d c of None \<Rightarrow> [] | Some n \<Rightarrow> map ((@) c) (select P n)) ctx)"

text \<open>\<^verbatim>\<open>jq[0]\<close>: the first element of a jQuery object, \<^verbatim>\<open>undefined\<close> when it is empty.\<close>

definition first :: "'a list \<Rightarrow> 'a option" where
  "first xs = (case xs of [] \<Rightarrow> None | x # _ \<Rightarrow> Some x)"

text \<open>\<^verbatim>\<open>.attr("checked", true)\<close> and \<^verbatim>\<open>.val(v)\<close> act on every element of the object.\<close>

definition jq_attr_checked :: "path list \<Rightarrow> node \<Rightarrow> node" where
  "jq_attr_checked ps d = foldl (\<lambda>d p. set_attrs (\<lambda>a. a\<lparr>a_checked := True\<rparr>) p d) d ps"

definition jq_val :: "string \<Rightarrow> path list \<Rightarrow> node \<Rightarrow> node" where
  "jq_val v ps d = foldl (\<lambda>d p. set_attrs (\<lambda>a. a\<lparr>a_value := v\<rparr>) p d) d ps"

text \<open>
  \<^verbatim>\<open>.append(new_row)\<close>: the new element becomes the last child of the target. With several
  targets jQuery inserts copies into all but the last, and the element itself into the last;
  with none the element stays outside the document. The result is the new document and the
  reference to the inserted element, if any.
\<close>

fun jq_append :: "path list \<Rightarrow> node \<Rightarrow> node \<Rightarrow> node \<times> path option" where
  "jq_append [] c d = (d, None)"
| "jq_append [t] c d = (append_child t c d, Some (t @ [n_kids t d]))"
| "jq_append (t # ts) c d = jq_append ts c (append_child t c d)"

text \<open>\<^verbatim>\<open>.detach()\<close>: the elements of the object leave the tree with their subtrees.\<close>

definition jq_detach :: "path list \<Rightarrow> node \<Rightarrow> node" where
  "jq_detach ps d = foldr remove_at ps d"

section \<open>Problem definitions and the editor collaborator\<close>

text \<open>
  A problem definition arrives as JSON. The two flags are tested for truthiness, so they keep
  their JSON value; the feedback fields and the fields of a question are strings. An absent
  field is \<open>None\<close>.
\<close>

datatype json = JNull | JBool bool | JNumber int | JString string | JObject

fun truthy :: "json \<Rightarrow> bool" where
  "truthy JNull = False"
| "truthy (JBool b) = b"
| "truthy (JNumber n) = (n \<noteq> 0)"
| "truthy (JString s) = (s \<noteq> [])"
| "truthy JObject = True"

record question_data =
  question :: "string option"
  answer :: "string option"
  success_feedback :: "string option"
  error_feedback :: "string option"

record problem =
  unshuffle :: "json option"
  centralize :: "json option"
  all_success_feedback :: "string option"
  partial_success_feedback :: "string option"
  all_error_feedback :: "string option"
  questions :: "question_data list"

datatype target = InDocument path | InDetachedRow path

record editor =
  ed_target :: target
  ed_mode :: string
  ed_lines :: nat
  ed_value :: string

record page =
  dom :: node
  editors :: "editor list"

datatype error = TypeError | ElementNotFound

text \<open>
  An editor is recorded with the place of its element at the time of the registration.
  A call either completes or throws; in both cases the page keeps the mutations made so far.
\<close>

datatype outcome = Done page | Thrown error page

fun page_of :: "outcome \<Rightarrow> page" where
  "page_of (Done pg) = pg"
| "page_of (Thrown e pg) = pg"

fun and_then :: "outcome \<Rightarrow> (page \<Rightarrow> outcome) \<Rightarrow> outcome" where
  "and_then (Done pg) f = f pg"
| "and_then (Thrown e pg) f = Thrown e pg"

text \<open>
  Modelled from the spec: the rich-text editor collaborator
  \<^verbatim>\<open>createEditor(targetElement, mode, singleLineFlag) -> EditorHandle\<close> with
  \<^verbatim>\<open>EditorHandle.setValue(text)\<close>, called in the source as
  \<^verbatim>\<open>registerCodeEditor(element, "rst", 1).setValue(text)\<close>. It is host code outside this
  repository. A missing target element fails at the point of use.
\<close>

definition registerCodeEditor_setValue ::
  "target option \<Rightarrow> string \<Rightarrow> nat \<Rightarrow> string \<Rightarrow> page \<Rightarrow> outcome" where
  "registerCodeEditor_setValue el mode lines text pg =
     (case el of
        None \<Rightarrow> Thrown ElementNotFound pg
      | Some t \<Rightarrow>
          Done (pg\<lparr>editors := editors pg @
            [\<lparr>ed_target = t, ed_mode = mode, ed_lines = lines, ed_value = text\<rparr>]\<rparr>))"

text \<open>
  The browser and the host page, as far as the studio script calls them: parsing markup into
  elements (\<^verbatim>\<open>.html(markup)\<close>), serialising the children of an element (\<^verbatim>\<open>.html()\<close>), and the
  host's \<^verbatim>\<open>studio_get_problem(pid)\<close>, which names the element holding the problem's panel.
\<close>

record env =
  html_parse :: "string \<Rightarrow> node list"
  html_serialize :: "node list \<Rightarrow> string"
  studio_get_problem :: "string \<Rightarrow> string"

definition jq_html :: "env \<Rightarrow> path list \<Rightarrow> node \<Rightarrow> string option" where
  "jq_html e ps d =
     (case ps of
        [] \<Rightarrow> None
      | p # _ \<Rightarrow> map_option (\<lambda>n. html_serialize e (kids n)) (node_at d p))"


section \<open>The studio script\<close>

subsection \<open>Choosing the index of a new row\<close>

text \<open>
  \<^verbatim>\<open>var index = 0; while ($("#question-" + pid + "-" + index).length != 0) index++;\<close>
  The loop ends because the document is finite and different indices give different ids
  (the termination proof follows the facts about \<open>dec\<close> below).
\<close>

function scan_index :: "node \<Rightarrow> string \<Rightarrow> nat \<Rightarrow> nat" where
  "scan_index d pid index =
     (if jq_id (''question-'' @ pid @ ''-'' @ dec index) d \<noteq> []
      then scan_index d pid (Suc index)
      else index)"
  by pat_completeness auto


subsection \<open>Creating and deleting a row\<close>

definition studio_create_matching_question ::
  "env \<Rightarrow> string \<Rightarrow> question_data \<Rightarrow> page \<Rightarrow> outcome" where
  "studio_create_matching_question e pid question_data pg =
     (let well = jq_id (studio_get_problem e pid) (dom pg);
          index = scan_index (dom pg) pid 0
      in case jq_html e (jq_id ''subproblem_matching_questions'' (dom pg)) (dom pg) of
           None \<Rightarrow> Thrown TypeError pg
         | Some row \<Rightarrow>
             let new_row_content = replace_all ''QUESTION'' (dec index) (replace_all ''PID'' pid row);
                 new_row = Node (plain\<lparr>a_id := Some (''question-'' @ dec index @ ''-'' @ pid)\<rparr>)
                             (html_parse e new_row_content);
                 (d1, ref) = jq_append (jq_find (has_id (''questions-'' @ pid)) well (dom pg))
                               new_row (dom pg);
                 (holder, at, wrap) =
                    (case ref of
                       None \<Rightarrow> (new_row, [], InDetachedRow)
                     | Some p \<Rightarrow> (d1, p, InDocument));
                 h1 = (case question question_data of
                         None \<Rightarrow> holder
                       | Some v \<Rightarrow>
                           jq_val v (jq_find (has_class ''subproblem_matching_question'') [at] holder)
                             holder);
                 h2 = (case answer question_data of
                         None \<Rightarrow> h1
                       | Some v \<Rightarrow>
                           jq_val v (jq_find (has_class ''subproblem_matching_answer'') [at] h1) h1);
                 pg1 = pg\<lparr>dom := (case ref of None \<Rightarrow> dom pg | Some p \<Rightarrow> h2)\<rparr>;
                 success_feedback' =
                    (case success_feedback question_data of None \<Rightarrow> [] | Some s \<Rightarrow> s);
                 error_feedback' =
                    (case error_feedback question_data of None \<Rightarrow> [] | Some s \<Rightarrow> s)
             in and_then
                  (registerCodeEditor_setValue
                     (map_option wrap
                        (first (jq_find (has_class ''subproblem_matching_success_feedback'') [at] h2)))
                     ''rst'' 1 success_feedback' pg1)
                  (registerCodeEditor_setValue
                     (map_option wrap
                        (first (jq_find (has_class ''subproblem_matching_error_feedback'') [at] h2)))
                     ''rst'' 1 error_feedback'))"

definition studio_delete_matching_question :: "string \<Rightarrow> string \<Rightarrow> page \<Rightarrow> page" where
  "studio_delete_matching_question pid question' pg =
     pg\<lparr>dom := jq_detach (jq_id (''question-'' @ question' @ ''-'' @ pid) (dom pg)) (dom pg)\<rparr>"

subsection \<open>Initialising a panel\<close>

text \<open>
  \<^verbatim>\<open>jQuery.each(problem["questions"], ...)\<close> calls the creation for each entry in order; an
  exception in one call ends the loop.
\<close>

fun create_each :: "env \<Rightarrow> string \<Rightarrow> question_data list \<Rightarrow> page \<Rightarrow> outcome" where
  "create_each e pid [] pg = Done pg"
| "create_each e pid (elem # rest) pg =
     and_then (studio_create_matching_question e pid elem pg) (create_each e pid rest)"

definition present_and_truthy :: "json option \<Rightarrow> bool" where
  "present_and_truthy f = (case f of None \<Rightarrow> False | Some v \<Rightarrow> truthy v)"

definition or_empty :: "string option \<Rightarrow> string" where
  "or_empty f = (case f of None \<Rightarrow> [] | Some s \<Rightarrow> s)"

definition init_flags :: "path \<Rightarrow> string \<Rightarrow> problem \<Rightarrow> node \<Rightarrow> node" where
  "init_flags well pid problem d =
     (let d1 = (if present_and_truthy (unshuffle problem)
                then jq_attr_checked (jq_find (has_id (''unshuffle-'' @ pid)) [well] d) d
                else d)
      in if present_and_truthy (centralize problem)
         then jq_attr_checked (jq_find (has_id (''centralize-'' @ pid)) [well] d1) d1
         else d1)"

definition by_id :: "string \<Rightarrow> page \<Rightarrow> target option" where
  "by_id s pg = map_option InDocument (first (jq_id s (dom pg)))"

definition studio_init_template_matching ::
  "env \<Rightarrow> path \<Rightarrow> string \<Rightarrow> problem \<Rightarrow> page \<Rightarrow> outcome" where
  "studio_init_template_matching e well pid problem pg =
     (let pg0 = pg\<lparr>dom := init_flags well pid problem (dom pg)\<rparr>;
          all_success_feedback' = or_empty (all_success_feedback problem);
          partial_success_feedback' = or_empty (partial_success_feedback problem);
          all_error_feedback' = or_empty (all_error_feedback problem)
      in and_then
           (registerCodeEditor_setValue (by_id (''all_success_feedback-'' @ pid) pg0)
              ''rst'' 1 all_success_feedback' pg0)
           (\<lambda>pg1. and_then
              (registerCodeEditor_setValue (by_id (''partial_success_feedback-'' @ pid) pg1)
                 ''rst'' 1 partial_success_feedback' pg1)
              (\<lambda>pg2. and_then
                 (registerCodeEditor_setValue (by_id (''all_error_feedback-'' @ pid) pg2)
                    ''rst'' 1 all_error_feedback' pg2)
                 (create_each e pid (questions problem)))))"


section \<open>The submission script\<close>

text \<open>
  \<^verbatim>\<open>load_input_matching\<close> reads the select controls inside the \<^verbatim>\<open>.problem\<close> regions of the
  page: the selector \<^verbatim>\<open>.problem select[id='...']\<close> reaches every such control with that id.
  The page is the list of these controls in document order. The payload maps a field key
  to a JSON value; only an array has the \<^verbatim>\<open>entries()\<close> method the loop calls.
\<close>

record select_control =
  sel_id :: string
  sel_value :: string

datatype input_value =
    IArray "string list"
  | IObject "(string \<times> string) list"
  | IString string
  | INull

definition val_select :: "string \<Rightarrow> string \<Rightarrow> select_control list \<Rightarrow> select_control list" where
  "val_select i v form = map (\<lambda>c. if sel_id c = i then c\<lparr>sel_value := v\<rparr> else c) form"

fun for_entries :: "string \<Rightarrow> nat \<Rightarrow> string list \<Rightarrow> select_control list \<Rightarrow> select_control list" where
  "for_entries key i [] form = form"
| "for_entries key i (v # vs) form =
     for_entries key (Suc i) vs (val_select (key @ ''_'' @ dec i) v form)"


section \<open>Vocabulary of the statements\<close>

text \<open>
  The row that a creation call builds: a fresh container whose id is
  \<^verbatim>\<open>"question-" + index + "-" + pid\<close> and whose children are the parsed, substituted
  template markup.
\<close>

definition new_row_of :: "env \<Rightarrow> string \<Rightarrow> nat \<Rightarrow> string \<Rightarrow> node" where
  "new_row_of e pid index row =
     Node (plain\<lparr>a_id := Some (''question-'' @ dec index @ ''-'' @ pid)\<rparr>)
       (html_parse e (replace_all ''QUESTION'' (dec index) (replace_all ''PID'' pid row)))"

text \<open>
  The two \<^verbatim>\<open>.val(...)\<close> calls of a creation, on the document (\<open>fill_at\<close>, at the path of
  the new row) and on the row alone (\<open>fill_row\<close>).
\<close>

definition fill_at :: "question_data \<Rightarrow> path \<Rightarrow> node \<Rightarrow> node" where
  "fill_at qd at h =
     (let h1 = (case question qd of
                  None \<Rightarrow> h
                | Some v \<Rightarrow> jq_val v (jq_find (has_class ''subproblem_matching_question'') [at] h) h)
      in case answer qd of
           None \<Rightarrow> h1
         | Some v \<Rightarrow> jq_val v (jq_find (has_class ''subproblem_matching_answer'') [at] h1) h1)"

definition fill_row :: "question_data \<Rightarrow> node \<Rightarrow> node" where
  "fill_row qd row =
     (let r1 = (case question qd of
                  None \<Rightarrow> row
                | Some v \<Rightarrow> jq_val v (select (has_class ''subproblem_matching_question'') row) row)
      in case answer qd of
           None \<Rightarrow> r1
         | Some v \<Rightarrow> jq_val v (select (has_class ''subproblem_matching_answer'') r1) r1)"


definition expected_value :: "question_data \<Rightarrow> attrs \<Rightarrow> string" where
  "expected_value qd a0 =
     (case (if has_class ''subproblem_matching_answer'' a0 then answer qd else None) of
        Some v \<Rightarrow> v
      | None \<Rightarrow>
          (case (if has_class ''subproblem_matching_question'' a0 then question qd else None) of
             Some v \<Rightarrow> v
           | None \<Rightarrow> a_value a0))"

text \<open>The rows of a panel: the children of its questions container.\<close>

definition rows_of :: "string \<Rightarrow> node \<Rightarrow> node list" where
  "rows_of pid d =
     (case jq_id (''questions-'' @ pid) d of
        [] \<Rightarrow> []
      | t # _ \<Rightarrow> (case node_at d t of None \<Rightarrow> [] | Some n \<Rightarrow> kids n))"

definition row_ids :: "string \<Rightarrow> node \<Rightarrow> string option list" where
  "row_ids pid d = map (\<lambda>n. a_id (attrs_of n)) (rows_of pid d)"


section \<open>A small browser for the examples\<close>

text \<open>
  The theorems below hold for every parser and serialiser. The examples need a concrete
  pair: a flat markup of \<^verbatim>\<open><input ...>\<close> elements with unquoted \<^verbatim>\<open>id=\<close>, \<^verbatim>\<open>class=\<close> and
  \<^verbatim>\<open>value=\<close> attributes, and a host whose panel for problem \<^verbatim>\<open>pid\<close> is the element
  \<^verbatim>\<open>subproblem_well_pid\<close>, as in INGInious.
\<close>

fun split_on :: "char \<Rightarrow> string \<Rightarrow> string list" where
  "split_on c [] = [[]]"
| "split_on c (x # xs) =
     (if x = c then [] # split_on c xs
      else (case split_on c xs of [] \<Rightarrow> [[x]] | w # ws \<Rightarrow> (x # w) # ws))"

definition attr_values :: "string \<Rightarrow> string list \<Rightarrow> string list" where
  "attr_values name toks =
     map (drop (Suc (length name))) (filter (prefix (name @ ''='')) toks)"

definition example_element :: "string \<Rightarrow> node" where
  "example_element chunk =
     (let toks = split_on CHR '' '' (takeWhile (\<lambda>c. c \<noteq> CHR ''>'') chunk)
      in Node \<lparr>a_id = first (attr_values ''id'' toks),
               a_class = attr_values ''class'' toks,
               a_checked = (''checked'' \<in> set toks),
               a_value = concat (take 1 (attr_values ''value'' toks))\<rparr> [])"

definition example_parse :: "string \<Rightarrow> node list" where
  "example_parse s =
     map example_element
       (filter (\<lambda>chunk. \<not> prefix ''/'' chunk \<and> chunk \<noteq> []) (tl (split_on CHR ''<'' s)))"

definition example_render :: "node \<Rightarrow> string" where
  "example_render n =
     ''<input''
     @ (case a_id (attrs_of n) of None \<Rightarrow> [] | Some i \<Rightarrow> '' id='' @ i)
     @ concat (map (\<lambda>c. '' class='' @ c) (a_class (attrs_of n)))
     @ (if a_checked (attrs_of n) then '' checked'' else [])
     @ (if a_value (attrs_of n) = [] then [] else '' value='' @ a_value (attrs_of n))
     @ ''>''"

definition example_env :: env where
  "example_env =
     \<lparr>html_parse = example_parse,
      html_serialize = (\<lambda>ks. concat (map example_render ks)),
      studio_get_problem = (\<lambda>pid. ''subproblem_well_'' @ pid)\<rparr>"

definition el :: "string option \<Rightarrow> string list \<Rightarrow> string \<Rightarrow> node list \<Rightarrow> node" where
  "el i cs v ks = Node \<lparr>a_id = i, a_class = cs, a_checked = False, a_value = v\<rparr> ks"

text \<open>
  A row template whose controls are addressed by class, as the script addresses them, and a
  page with one empty panel for the problem \<^verbatim>\<open>p\<close>.
\<close>

definition example_template :: "node list" where
  "example_template =
     [el None [''subproblem_matching_question''] [] [],
      el None [''subproblem_matching_answer''] ''?'' [],
      el None [''subproblem_matching_success_feedback''] [] [],
      el None [''subproblem_matching_error_feedback''] [] []]"

definition example_panel :: "node list \<Rightarrow> node" where
  "example_panel rows =
     el (Some ''subproblem_well_p'') [] []
       [el (Some ''unshuffle-p'') [] [] [],
        el (Some ''centralize-p'') [] [] [],
        el (Some ''all_success_feedback-p'') [] [] [],
        el (Some ''partial_success_feedback-p'') [] [] [],
        el (Some ''all_error_feedback-p'') [] [] [],
        el (Some ''questions-p'') [] [] rows]"

definition example_page :: "node list \<Rightarrow> node list \<Rightarrow> page" where
  "example_page template rows =
     \<lparr>dom = Node plain
        [el (Some ''subproblem_matching_questions'') [] [] template, example_panel rows],
      editors = []\<rparr>"

definition empty_question :: question_data where
  "empty_question = \<lparr>question = None, answer = None, success_feedback = None, error_feedback = None\<rparr>"

definition example_row :: "nat \<Rightarrow> node" where
  "example_row i = el (Some (''question-'' @ dec i @ ''-p'')) [] [] example_template"

definition example_question :: question_data where
  "example_question =
     \<lparr>question = Some ''2+2'', answer = None, success_feedback = Some ''ok'', error_feedback = None\<rparr>"

definition example_problem :: problem where
  "example_problem =
     \<lparr>unshuffle = Some (JBool True), centralize = Some (JBool False),
      all_success_feedback = Some ''Well done'', partial_success_feedback = None,
      all_error_feedback = None, questions = [example_question]\<rparr>"



text \<open>A row template whose question input also carries the id the index scan looks for.\<close>

definition example_template_with_id :: "node list" where
  "example_template_with_id =
     [el (Some ''question-PID-QUESTION'') [''subproblem_matching_question''] [] [],
      el None [''subproblem_matching_answer''] [] [],
      el None [''subproblem_matching_success_feedback''] [] [],
      el None [''subproblem_matching_error_feedback''] [] []]"

section \<open>Facts about strings\<close>

lemma digit_inj: "a < 10 \<Longrightarrow> b < 10 \<Longrightarrow> digit a = digit b \<Longrightarrow> a = b"
  by (simp add: digit_def char_of_eq_iff take_bit_eq_mod)

lemma dec_nonempty: "dec n \<noteq> []"
  by (subst dec.simps) simp

lemma dec_inj: "dec a = dec b \<Longrightarrow> a = b"
proof (induction a arbitrary: b rule: dec.induct)
  case (1 n)
  show ?case
  proof (cases "n < 10")
    case True
    then have l: "dec n = [digit n]" by (subst dec.simps) simp
    show ?thesis
    proof (cases "b < 10")
      case True
      then have "dec b = [digit b]" by (subst dec.simps) simp
      with l 1 True \<open>n < 10\<close> show ?thesis by (auto dest: digit_inj)
    next
      case False
      then have "dec b = dec (b div 10) @ [digit (b mod 10)]" by (subst dec.simps) simp
      with l 1 have "dec (b div 10) = []" by simp
      then show ?thesis using dec_nonempty by blast
    qed
  next
    case False
    then have l: "dec n = dec (n div 10) @ [digit (n mod 10)]" by (subst dec.simps) simp
    show ?thesis
    proof (cases "b < 10")
      case True
      then have "dec b = [digit b]" by (subst dec.simps) simp
      with l 1 have "dec (n div 10) = []" by simp
      then show ?thesis using dec_nonempty by blast
    next
      case False
      then have "dec b = dec (b div 10) @ [digit (b mod 10)]" by (subst dec.simps) simp
      with l 1 have e: "dec (n div 10) = dec (b div 10)"
        and d: "digit (n mod 10) = digit (b mod 10)" by auto
      from 1(1)[OF \<open>\<not> n < 10\<close> e] have "n div 10 = b div 10" .
      moreover from d have "n mod 10 = b mod 10"
        using digit_inj [of "n mod 10" "b mod 10"] by simp
      ultimately show ?thesis by (metis div_mult_mod_eq)
    qed
  qed
qed







section \<open>Facts about the page\<close>

subsection \<open>The index scan terminates and finds the least free index\<close>

lemma jq_id_nonempty_iff:
  "jq_id s d \<noteq> [] \<longleftrightarrow> (\<exists>x \<in> set (elements d). a_id (snd x) = Some s)"
proof -
  have "jq_id s d \<noteq> [] \<longleftrightarrow> filter (\<lambda>(p, a). has_id s a) (elements d) \<noteq> []"
    by (simp add: jq_id_def select_def)
  also have "\<dots> \<longleftrightarrow> (\<exists>x \<in> set (elements d). a_id (snd x) = Some s)"
    by (force simp: filter_empty_conv has_id_def)
  finally show ?thesis .
qed

lemma filter_shrinks:
  assumes "\<And>x. Q x \<Longrightarrow> P x" and "x \<in> set xs" and "P x" and "\<not> Q x"
  shows "length (filter Q xs) < length (filter P xs)"
proof -
  have "filter Q xs = filter Q (filter P xs)"
    using assms(1) by (auto intro: filter_cong)
  moreover have "length (filter Q (filter P xs)) < length (filter P xs)"
    using assms(2-4) by (intro length_filter_less[of x]) auto
  ultimately show ?thesis by simp
qed

termination scan_index
proof (relation "measure (\<lambda>(d, pid, index).
    length (filter (\<lambda>x. \<exists>j\<ge>index. a_id (snd x) = Some (''question-'' @ pid @ ''-'' @ dec j))
      (elements d)))", goal_cases)
  case 1
  show ?case by simp
next
  case (2 d pid index)
  then obtain x where x: "x \<in> set (elements d)"
    "a_id (snd x) = Some (''question-'' @ pid @ ''-'' @ dec index)"
    by (auto simp: jq_id_nonempty_iff)
  have "length (filter (\<lambda>x. \<exists>j\<ge>Suc index. a_id (snd x) = Some (''question-'' @ pid @ ''-'' @ dec j))
      (elements d))
    < length (filter (\<lambda>x. \<exists>j\<ge>index. a_id (snd x) = Some (''question-'' @ pid @ ''-'' @ dec j))
      (elements d))"
  proof (rule filter_shrinks[of _ _ x])
    show "\<exists>j\<ge>index. a_id (snd x) = Some (''question-'' @ pid @ ''-'' @ dec j)"
      using x(2) by blast
    show "\<not> (\<exists>j\<ge>Suc index. a_id (snd x) = Some (''question-'' @ pid @ ''-'' @ dec j))"
      using x(2) by (auto dest: dec_inj)
  qed (use x(1) in \<open>auto intro: Suc_leD\<close>)
  then show ?case by simp
qed

declare scan_index.simps [simp del]

lemma scan_index_from:
  "scan_index d pid i = (LEAST j. i \<le> j \<and> jq_id (''question-'' @ pid @ ''-'' @ dec j) d = [])"
proof (induction d pid i rule: scan_index.induct)
  case (1 d pid index)
  show ?case
  proof (cases "jq_id (''question-'' @ pid @ ''-'' @ dec index) d = []")
    case True
    then have "(LEAST j. index \<le> j \<and> jq_id (''question-'' @ pid @ ''-'' @ dec j) d = []) = index"
      by (intro Least_equality) auto
    with True show ?thesis by (subst scan_index.simps) simp
  next
    case False
    have "(\<lambda>j. index \<le> j \<and> jq_id (''question-'' @ pid @ ''-'' @ dec j) d = [])
        = (\<lambda>j. Suc index \<le> j \<and> jq_id (''question-'' @ pid @ ''-'' @ dec j) d = [])"
      using False by (auto simp: fun_eq_iff Suc_le_eq le_less)
    with False 1 show ?thesis by (subst scan_index.simps) simp
  qed
qed

lemma scan_index_least:
  "scan_index d pid 0 = (LEAST j. jq_id (''question-'' @ pid @ ''-'' @ dec j) d = [])"
  by (simp add: scan_index_from)

subsection \<open>Paths, elements and selections\<close>

lemma node_at_append: "node_at d (p @ q) = (case node_at d p of None \<Rightarrow> None | Some n \<Rightarrow> node_at n q)"
  by (induction p arbitrary: d) auto

lemma node_at_modify_prefix:
  "node_at (modify_at f (p @ r) d) p = map_option (modify_at f r) (node_at d p)"
  by (induction p arbitrary: d) auto

lemma attrs_at_set_attrs:
  "attrs_at (set_attrs g q d) p = (if p = q then map_option g (attrs_at d p) else attrs_at d p)"
proof (induction q arbitrary: p d)
  case Nil
  then show ?case by (cases p) (auto simp: attrs_at_def set_attrs_def)
next
  case (Cons i q)
  show ?case
  proof (cases p)
    case Nil
    then show ?thesis by (auto simp: attrs_at_def set_attrs_def)
  next
    case (Cons j p')
    with Cons.IH[where p=p' and d="kids d ! i"] show ?thesis
      by (auto simp: attrs_at_def set_attrs_def nth_list_update)
  qed
qed

lemma attrs_at_append_child:
  "node_at d p = Some n \<Longrightarrow> attrs_at (append_child q c d) p = Some (attrs_of n)"
proof (induction q arbitrary: p d n)
  case Nil
  then show ?case by (cases p) (auto simp: attrs_at_def append_child_def nth_append split: if_splits)
next
  case (Cons i q)
  show ?case
  proof (cases p)
    case Nil
    with Cons.prems show ?thesis by (auto simp: attrs_at_def append_child_def)
  next
    case (Cons j p')
    with Cons.prems Cons.IH[where p=p' and d="kids d ! i" and n=n] show ?thesis
      by (auto simp: attrs_at_def append_child_def nth_list_update split: if_splits)
  qed
qed

lemma elements_sound:
  "(p, a) \<in> set (elements n) \<Longrightarrow> p \<noteq> [] \<and> (\<exists>m. node_at n p = Some m \<and> attrs_of m = a)"
  "(p, a) \<in> set (elements_from i ks) \<Longrightarrow>
     \<exists>j q m. p = (i + j) # q \<and> j < length ks \<and> node_at (ks ! j) q = Some m \<and> attrs_of m = a"
proof (induction n and i ks arbitrary: p a and p a rule: elements_elements_from.induct)
  case (1 a ks)
  then show ?case by fastforce
next
  case (2 i)
  then show ?case by simp
next
  case (3 i k ks)
  from 3(3) consider "p = [i] \<and> a = attrs_of k"
    | q where "p = i # q" "(q, a) \<in> set (elements k)"
    | "(p, a) \<in> set (elements_from (Suc i) ks)"
    by auto
  then show ?case
  proof cases
    case 1
    then show ?thesis by (intro exI[of _ 0] exI[of _ "[]"]) simp
  next
    case 2
    with 3(1) obtain m where "node_at k q = Some m" "attrs_of m = a" by blast
    with 2 show ?thesis by (intro exI[of _ 0] exI[of _ q]) simp
  next
    case 3
    with "3.IH"(2) obtain j q m where
      "p = (Suc i + j) # q" "j < length ks" "node_at (ks ! j) q = Some m" "attrs_of m = a"
      by blast
    then show ?thesis by (intro exI[of _ "Suc j"] exI[of _ q]) simp
  qed
qed

lemma elements_complete:
  "node_at n p = Some m \<Longrightarrow> p \<noteq> [] \<Longrightarrow> (p, attrs_of m) \<in> set (elements n)"
  "j < length ks \<Longrightarrow> node_at (ks ! j) q = Some m \<Longrightarrow>
     ((i + j) # q, attrs_of m) \<in> set (elements_from i ks)"
proof (induction n and i ks arbitrary: p m and j q m rule: elements_elements_from.induct)
  case (1 a ks)
  then obtain j q where p: "p = j # q" by (cases p) auto
  with 1(2) have "j < length ks" "node_at (ks ! j) q = Some m" by (auto split: if_splits)
  from "1.IH"[OF this] p show ?case by simp
next
  case (2 i)
  then show ?case by simp
next
  case (3 i k ks)
  show ?case
  proof (cases j)
    case 0
    show ?thesis
    proof (cases q)
      case Nil
      with 0 3(4) show ?thesis by simp
    next
      case (Cons x xs)
      with 0 3(4) have "(q, attrs_of m) \<in> set (elements k)" by (intro "3.IH"(1)) auto
      with 0 show ?thesis by force
    qed
  next
    case (Suc j')
    with 3(3,4) have "((Suc i + j') # q, attrs_of m) \<in> set (elements_from (Suc i) ks)"
      by (intro "3.IH"(2)) auto
    with Suc show ?thesis by simp
  qed
qed

lemma select_iff:
  "p \<in> set (select P n) \<longleftrightarrow> p \<noteq> [] \<and> (\<exists>m. node_at n p = Some m \<and> P (attrs_of m))"
proof
  assume "p \<in> set (select P n)"
  then obtain a where "(p, a) \<in> set (elements n)" "P a" by (auto simp: select_def)
  with elements_sound(1)[of p a n] show "p \<noteq> [] \<and> (\<exists>m. node_at n p = Some m \<and> P (attrs_of m))"
    by auto
next
  assume "p \<noteq> [] \<and> (\<exists>m. node_at n p = Some m \<and> P (attrs_of m))"
  then obtain m where "p \<noteq> []" "node_at n p = Some m" "P (attrs_of m)" by blast
  then have "(p, attrs_of m) \<in> set (elements n)" "P (attrs_of m)"
    by (auto intro: elements_complete(1))
  then show "p \<in> set (select P n)" by (force simp: select_def)
qed

lemma jq_find_iff:
  "p \<in> set (jq_find P ctx d) \<longleftrightarrow>
     (\<exists>c \<in> set ctx. strict_prefix c p) \<and> (\<exists>m. node_at d p = Some m \<and> P (attrs_of m))"
proof -
  define g where "g c = (case node_at d c of None \<Rightarrow> [] | Some n \<Rightarrow> map ((@) c) (select P n))" for c
  have one: "p \<in> set (g c) \<longleftrightarrow>
      strict_prefix c p \<and> (\<exists>m. node_at d p = Some m \<and> P (attrs_of m))" for c
  proof (cases "node_at d c")
    case None
    then have "node_at d p = None" if "strict_prefix c p"
      using that by (auto simp: strict_prefix_def prefix_def node_at_append)
    with None show ?thesis by (auto simp: g_def)
  next
    case (Some n)
    have "p \<in> (@) c ` set (select P n) \<longleftrightarrow>
        (\<exists>r. p = c @ r \<and> r \<noteq> [] \<and> (\<exists>m. node_at n r = Some m \<and> P (attrs_of m)))"
      by (auto simp: select_iff)
    also have "\<dots> \<longleftrightarrow> strict_prefix c p \<and> (\<exists>m. node_at d p = Some m \<and> P (attrs_of m))"
      using Some by (auto simp: strict_prefix_def prefix_def node_at_append)
    finally show ?thesis using Some by (simp add: g_def)
  qed
  have "jq_find P ctx d = concat (map g ctx)"
    unfolding jq_find_def g_def ..
  then have "p \<in> set (jq_find P ctx d) \<longleftrightarrow> (\<exists>c \<in> set ctx. p \<in> set (g c))"
    by auto
  then show ?thesis unfolding one by blast
qed

lemma select_proj: "select P n = map fst (filter snd (map (apsnd P) (elements n)))"
  by (simp add: select_def filter_map comp_def split_def)

lemma elements_from_update:
  assumes "i < length ks"
    and "map (apsnd P) (elements k') = map (apsnd P) (elements (ks ! i))"
    and "P (attrs_of k') = P (attrs_of (ks ! i))"
  shows "map (apsnd P) (elements_from j (ks[i := k'])) = map (apsnd P) (elements_from j ks)"
  using assms
proof (induction ks arbitrary: i j)
  case Nil
  then show ?case by simp
next
  case (Cons k ks)
  have sw: "map (apsnd P) (map (\<lambda>(p, b). (j # p, b)) xs)
      = map (\<lambda>(p, b). (j # p, b)) (map (apsnd P) xs)" for xs :: "(path \<times> attrs) list"
    by (simp add: case_prod_beta)
  show ?case
  proof (cases i)
    case 0
    with Cons.prems show ?thesis by (simp add: sw del: map_map)
  next
    case (Suc i')
    with Cons.prems Cons.IH[of i' "Suc j"] show ?thesis by simp
  qed
qed

lemma attrs_of_set_attrs:
  "attrs_of (set_attrs g q k) = (if q = [] then g (attrs_of k) else attrs_of k)"
  by (cases q) (auto simp: set_attrs_def)

lemma proj_set_attrs:
  assumes "\<And>a. P (g a) = P a"
  shows "map (apsnd P) (elements (set_attrs g q d)) = map (apsnd P) (elements d)"
proof (induction q arbitrary: d)
  case Nil
  show ?case by (cases d) (simp add: set_attrs_def)
next
  case (Cons i q)
  obtain a ks where d: "d = Node a ks" by (cases d)
  show ?case
  proof (cases "i < length ks")
    case True
    have "set_attrs g (i # q) d = Node a (ks[i := set_attrs g q (ks ! i)])"
      using True d by (simp add: set_attrs_def)
    moreover have "map (apsnd P) (elements_from 0 (ks[i := set_attrs g q (ks ! i)]))
        = map (apsnd P) (elements_from 0 ks)"
      using True Cons.IH[of "ks ! i"] assms
      by (intro elements_from_update) (auto simp: attrs_of_set_attrs)
    ultimately show ?thesis using d by simp
  next
    case False
    then show ?thesis using d by (simp add: set_attrs_def)
  qed
qed

lemma select_set_attrs:
  assumes "\<And>a. P (g a) = P a"
  shows "select P (set_attrs g q d) = select P d"
  by (simp add: select_proj proj_set_attrs[of P g, OF assms])

lemma select_jq_val:
  assumes "\<And>a v. P (a\<lparr>a_value := v\<rparr>) = P a"
  shows "select P (jq_val v ps d) = select P d"
  unfolding jq_val_def
  by (induction ps arbitrary: d) (simp_all add: select_set_attrs assms)

lemma select_jq_attr_checked:
  assumes "\<And>a. P (a\<lparr>a_checked := True\<rparr>) = P a"
  shows "select P (jq_attr_checked ps d) = select P d"
  unfolding jq_attr_checked_def
  by (induction ps arbitrary: d) (simp_all add: select_set_attrs assms)

lemma attrs_at_jq_val:
  "attrs_at (jq_val v ps d) p =
     (if p \<in> set ps then map_option (\<lambda>a. a\<lparr>a_value := v\<rparr>) (attrs_at d p) else attrs_at d p)"
  unfolding jq_val_def
proof (induction ps arbitrary: d)
  case Nil
  show ?case by simp
next
  case (Cons q ps)
  show ?case
    by (cases "attrs_at d p") (auto simp: Cons.IH attrs_at_set_attrs)
qed

lemma attrs_at_jq_attr_checked:
  "attrs_at (jq_attr_checked ps d) p =
     (if p \<in> set ps then map_option (\<lambda>a. a\<lparr>a_checked := True\<rparr>) (attrs_at d p) else attrs_at d p)"
  unfolding jq_attr_checked_def
proof (induction ps arbitrary: d)
  case Nil
  show ?case by simp
next
  case (Cons q ps)
  show ?case
    by (cases "attrs_at d p") (auto simp: Cons.IH attrs_at_set_attrs)
qed

lemma node_at_set_attrs_under:
  "node_at (set_attrs g (c @ r) d) c = map_option (set_attrs g r) (node_at d c)"
  unfolding set_attrs_def by (rule node_at_modify_prefix)

lemma node_at_jq_val_under:
  "node_at (jq_val v (map ((@) c) rs) d) c = map_option (jq_val v rs) (node_at d c)"
  unfolding jq_val_def
proof (induction rs arbitrary: d)
  case Nil
  show ?case by (cases "node_at d c") simp_all
next
  case (Cons r rs)
  show ?case
    by (cases "node_at d c") (simp_all add: Cons.IH node_at_set_attrs_under)
qed

lemma jq_val_last_kid:
  "jq_val v (map ((#) (length ks)) rs) (Node a (ks @ [row])) = Node a (ks @ [jq_val v rs row])"
  unfolding jq_val_def
  by (induction rs arbitrary: row) (simp_all add: set_attrs_def)

subsection \<open>What a creation does to the page\<close>

lemma dom_page_of_editor [simp]:
  "dom (page_of (registerCodeEditor_setValue t m l v pg)) = dom pg"
  by (cases t) (simp_all add: registerCodeEditor_setValue_def)

lemma dom_page_of_two_editors [simp]:
  "dom (page_of (and_then (registerCodeEditor_setValue t m l v pg)
      (registerCodeEditor_setValue t' m' l' v'))) = dom pg"
  by (cases t; cases t') (simp_all add: registerCodeEditor_setValue_def)

lemma create_dom:
  "dom (page_of (studio_create_matching_question e pid qd pg)) =
     (case jq_html e (jq_id ''subproblem_matching_questions'' (dom pg)) (dom pg) of
        None \<Rightarrow> dom pg
      | Some row \<Rightarrow>
          (case jq_append
                  (jq_find (has_id (''questions-'' @ pid))
                     (jq_id (studio_get_problem e pid) (dom pg)) (dom pg))
                  (new_row_of e pid (scan_index (dom pg) pid 0) row) (dom pg) of
             (d1, None) \<Rightarrow> dom pg
           | (d1, Some at) \<Rightarrow> fill_at qd at d1))"
  unfolding studio_create_matching_question_def new_row_of_def fill_at_def
  by (simp add: Let_def split: option.split prod.split)

lemma attrs_at_append_child':
  "attrs_at d p = Some a \<Longrightarrow> attrs_at (append_child q c d) p = Some a"
  using attrs_at_append_child[of d p _ q c] by (auto simp: attrs_at_def)

lemma fresh_path_invalid:
  assumes "attrs_at d p = Some a"
  shows "\<not> prefix (t @ [n_kids t d]) p"
proof
  assume "prefix (t @ [n_kids t d]) p"
  then obtain r where p: "p = t @ n_kids t d # r" by (auto simp: prefix_def)
  from assms obtain m where "node_at d p = Some m" by (auto simp: attrs_at_def)
  then show False
    unfolding p by (auto simp: node_at_append n_kids_def split: option.splits if_splits)
qed

lemma jq_append_frame:
  "jq_append ts c d = (d1, ref) \<Longrightarrow> attrs_at d p = Some a \<Longrightarrow>
     attrs_at d1 p = Some a \<and> (\<forall>at. ref = Some at \<longrightarrow> \<not> prefix at p)"
proof (induction ts c d rule: jq_append.induct)
  case (1 c d)
  then show ?case by simp
next
  case (2 t c d)
  then show ?case by (auto simp: attrs_at_append_child' dest: fresh_path_invalid)
next
  case (3 t v va c d)
  then show ?case by (auto simp: attrs_at_append_child')
qed

lemma fill_at_frame:
  assumes "\<not> prefix at p"
  shows "attrs_at (fill_at qd at h) p = attrs_at h p"
proof -
  have "p \<notin> set (jq_find P [at] h')" for P h'
    using assms by (auto simp: jq_find_iff)
  then show ?thesis
    by (simp add: fill_at_def Let_def attrs_at_jq_val split: option.split)
qed

lemma create_frame:
  assumes "attrs_at (dom pg) p = Some a"
  shows "attrs_at (dom (page_of (studio_create_matching_question e pid qd pg))) p = Some a"
  using assms
  by (auto simp: create_dom fill_at_frame split: option.split prod.split dest: jq_append_frame)

lemma create_each_frame:
  "attrs_at (dom pg) p = Some a \<Longrightarrow>
     attrs_at (dom (page_of (create_each e pid qs pg))) p = Some a"
proof (induction qs arbitrary: pg)
  case Nil
  then show ?case by simp
next
  case (Cons q qs)
  from create_frame[OF Cons.prems]
  have "attrs_at (dom (page_of (studio_create_matching_question e pid q pg))) p = Some a" .
  with Cons.IH show ?case
    by (cases "studio_create_matching_question e pid q pg") simp_all
qed




lemma attrs_at_fill_row:
  assumes "attrs_at row r = Some a0"
  shows "attrs_at (fill_row qd row) r =
     Some (if r = [] then a0 else a0\<lparr>a_value := expected_value qd a0\<rparr>)"
proof -
  have sel: "r \<in> set (select (has_class c) row') \<longleftrightarrow> r \<noteq> [] \<and> (\<exists>a. attrs_at row' r = Some a \<and> has_class c a)"
    for c row'
    by (auto simp: select_iff attrs_at_def)
  show ?thesis
    using assms
    by (cases "question qd"; cases "answer qd")
       (auto simp: fill_row_def Let_def attrs_at_jq_val sel expected_value_def has_class_def)
qed

lemma fill_step:
  assumes "node_at h t = Some (Node a (ks @ [row]))"
  shows "node_at (jq_val v (jq_find P [t @ [length ks]] h) h) t =
     Some (Node a (ks @ [jq_val v (select P row) row]))"
proof -
  have "node_at h (t @ [length ks]) = Some row"
    using assms by (simp add: node_at_append)
  then have "jq_find P [t @ [length ks]] h = map ((@) t) (map ((#) (length ks)) (select P row))"
    by (simp add: jq_find_def)
  then show ?thesis
    using assms by (simp add: node_at_jq_val_under jq_val_last_kid del: map_map)
qed

lemma fill_at_row:
  assumes "node_at h t = Some (Node a (ks @ [row]))"
  shows "node_at (fill_at qd (t @ [length ks]) h) t = Some (Node a (ks @ [fill_row qd row]))"
  using assms
  by (cases "question qd"; cases "answer qd")
     (simp_all add: fill_at_def fill_row_def Let_def fill_step)

lemma jq_find_single_valid:
  assumes "jq_find P ctx d = [t]"
  obtains a ks where "node_at d t = Some (Node a ks)"
proof -
  have "t \<in> set (jq_find P ctx d)" using assms by simp
  then obtain m where "node_at d t = Some m" by (auto simp: jq_find_iff)
  then show ?thesis using that by (cases m) auto
qed


lemma create_attached:
  assumes "jq_html e (jq_id ''subproblem_matching_questions'' (dom pg)) (dom pg) = Some row"
    and "jq_append
           (jq_find (has_id (''questions-'' @ pid)) (jq_id (studio_get_problem e pid) (dom pg)) (dom pg))
           (new_row_of e pid (scan_index (dom pg) pid 0) row) (dom pg) = (d1, Some at)"
  shows "studio_create_matching_question e pid qd pg =
     and_then
       (registerCodeEditor_setValue
          (map_option InDocument
             (first (jq_find (has_class ''subproblem_matching_success_feedback'') [at] (fill_at qd at d1))))
          ''rst'' 1 (or_empty (success_feedback qd)) (pg\<lparr>dom := fill_at qd at d1\<rparr>))
       (registerCodeEditor_setValue
          (map_option InDocument
             (first (jq_find (has_class ''subproblem_matching_error_feedback'') [at] (fill_at qd at d1))))
          ''rst'' 1 (or_empty (error_feedback qd)))"
  using assms
  unfolding studio_create_matching_question_def new_row_of_def fill_at_def or_empty_def
  by (simp add: Let_def)

lemma select_fill_row:
  "select (has_class c) (fill_row qd row) = select (has_class c) row"
  by (simp add: fill_row_def Let_def select_jq_val has_class_def split: option.split)

lemma editors_two:
  "\<exists>rest. editors (page_of (and_then (registerCodeEditor_setValue t m l v pg1)
      (registerCodeEditor_setValue t' m' l' v'))) = editors pg1 @ rest"
  by (cases t; cases t') (simp_all add: registerCodeEditor_setValue_def)

lemma create_shape:
  "studio_create_matching_question e pid qd pg = Thrown TypeError pg \<or>
   (\<exists>t t' v v' d'. studio_create_matching_question e pid qd pg =
       and_then (registerCodeEditor_setValue t ''rst'' 1 v (pg\<lparr>dom := d'\<rparr>))
         (registerCodeEditor_setValue t' ''rst'' 1 v'))"
proof (cases "jq_html e (jq_id ''subproblem_matching_questions'' (dom pg)) (dom pg)")
  case None
  then show ?thesis by (simp add: studio_create_matching_question_def)
next
  case (Some row)
  obtain d1 ref where app: "jq_append
      (jq_find (has_id (''questions-'' @ pid)) (jq_id (studio_get_problem e pid) (dom pg)) (dom pg))
      (Node (plain\<lparr>a_id := Some (''question-'' @ dec (scan_index (dom pg) pid 0) @ ''-'' @ pid)\<rparr>)
         (html_parse e (replace_all ''QUESTION'' (dec (scan_index (dom pg) pid 0))
            (replace_all ''PID'' pid row))))
      (dom pg) = (d1, ref)"
    by fastforce
  show ?thesis
  proof (cases ref)
    case None
    show ?thesis
      unfolding studio_create_matching_question_def Some Let_def option.case app prod.case None
      by (intro disjI2 exI) (rule refl)
  next
    case (Some at)
    show ?thesis
      unfolding studio_create_matching_question_def \<open>jq_html _ _ _ = _\<close> Let_def option.case app
        prod.case Some
      by (intro disjI2 exI) (rule refl)
  qed
qed

lemma editors_create:
  "\<exists>rest. editors (page_of (studio_create_matching_question e pid qd pg)) = editors pg @ rest"
proof -
  from create_shape[of e pid qd pg] show ?thesis
  proof (elim disjE exE)
    assume "studio_create_matching_question e pid qd pg = Thrown TypeError pg"
    then show ?thesis by simp
  next
    fix t t' v v' d'
    assume "studio_create_matching_question e pid qd pg =
       and_then (registerCodeEditor_setValue t ''rst'' 1 v (pg\<lparr>dom := d'\<rparr>))
         (registerCodeEditor_setValue t' ''rst'' 1 v')"
    then show ?thesis
      using editors_two[of t "''rst''" 1 v "pg\<lparr>dom := d'\<rparr>" t' "''rst''" 1 v'] by simp
  qed
qed

lemma editors_create_each:
  "\<exists>rest. editors (page_of (create_each e pid qs pg)) = editors pg @ rest"
proof (induction qs arbitrary: pg)
  case Nil
  show ?case by simp
next
  case (Cons q qs)
  obtain r1 where r1: "editors (page_of (studio_create_matching_question e pid q pg)) = editors pg @ r1"
    using editors_create by blast
  show ?case
  proof (cases "studio_create_matching_question e pid q pg")
    case (Done pg1)
    obtain r2 where "editors (page_of (create_each e pid qs pg1)) = editors pg1 @ r2"
      using Cons.IH by blast
    with Done r1 show ?thesis by simp
  next
    case (Thrown err pg1)
    with r1 show ?thesis by simp
  qed
qed

subsection \<open>What the initialisation does to the page\<close>

lemma and_then_frame:
  assumes "attrs_at (dom (page_of out)) p = Some a"
    and "\<And>pg'. attrs_at (dom pg') p = Some a \<Longrightarrow> attrs_at (dom (page_of (f pg'))) p = Some a"
  shows "attrs_at (dom (page_of (and_then out f))) p = Some a"
  using assms by (cases out) simp_all

lemma attrs_at_init_flags:
  assumes "attrs_at d p = Some a"
  shows "attrs_at (init_flags well pid problem d) p =
     Some (a\<lparr>a_checked := a_checked a \<or>
        (strict_prefix well p \<and>
          (a_id a = Some (''unshuffle-'' @ pid) \<and> present_and_truthy (unshuffle problem)
           \<or> a_id a = Some (''centralize-'' @ pid) \<and> present_and_truthy (centralize problem)))\<rparr>)"
proof -
  have mem: "p \<in> set (jq_find (has_id s) [well] d') \<longleftrightarrow>
      strict_prefix well p \<and> (\<exists>b. attrs_at d' p = Some b \<and> a_id b = Some s)" for s d'
    by (auto simp: jq_find_iff attrs_at_def has_id_def)
  show ?thesis
    using assms
    by (auto simp: init_flags_def Let_def attrs_at_jq_attr_checked mem)
qed

lemma jq_id_init_flags: "jq_id s (init_flags well pid problem d) = jq_id s d"
  by (simp add: jq_id_def init_flags_def Let_def select_jq_attr_checked has_id_def)

subsection \<open>The loop of the submission script\<close>

lemma val_select_ids [simp]: "map sel_id (val_select i v form) = map sel_id form"
  by (induction form) (simp_all add: val_select_def)

lemma for_entries_ids: "map sel_id (for_entries key i vs form) = map sel_id form"
  by (induction vs arbitrary: i form) simp_all

lemma for_entries_length: "length (for_entries key i vs form) = length form"
  using for_entries_ids[of key i vs form] by (metis length_map)


lemma control_id_inj: "key @ ''_'' @ dec i = key @ ''_'' @ dec j \<Longrightarrow> i = j"
  by (auto dest: dec_inj)



subsection \<open>The example page\<close>

lemma example_tmpl:
  "jq_html example_env (jq_id ''subproblem_matching_questions'' (dom (example_page example_template [])))
     (dom (example_page example_template []))
   = Some ''<input class=subproblem_matching_question><input class=subproblem_matching_answer value=?><input class=subproblem_matching_success_feedback><input class=subproblem_matching_error_feedback>''"
  by code_simp

lemma example_cont:
  "jq_find (has_id (''questions-'' @ ''p''))
     (jq_id (studio_get_problem example_env ''p'') (dom (example_page example_template [])))
     (dom (example_page example_template [])) = [[1, 5]]"
  by code_simp

lemma example_feedback_elements:
  "jq_id (''all_success_feedback-'' @ ''p'') (dom (example_page example_template [])) = [[1, 2]]"
  "jq_id (''partial_success_feedback-'' @ ''p'') (dom (example_page example_template [])) = [[1, 3]]"
  "jq_id (''all_error_feedback-'' @ ''p'') (dom (example_page example_template [])) = [[1, 4]]"
  by code_simp+

section \<open>The properties of the specification\<close>



text \<open>
  The scan does see a row when the template markup itself gives some element of the row the
  id \<^verbatim>\<open>question-PID-QUESTION\<close>: then the rows count up.
\<close>

lemma rows_count_up_when_template_carries_lookup_id:
  "row_ids ''p'' (dom (page_of (create_each example_env ''p''
       [empty_question, empty_question, empty_question]
       (example_page example_template_with_id []))))
     = [Some ''question-0-p'', Some ''question-1-p'', Some ''question-2-p'']"
  by code_simp



text \<open>
  C4. Every element that was on the page before the initialisation keeps its attributes, but
  for \<^verbatim>\<open>checked\<close>: it becomes true exactly on the elements inside the panel whose id is
  \<^verbatim>\<open>unshuffle-{pid}\<close> or \<^verbatim>\<open>centralize-{pid}\<close> when the field of that name is present and
  truthy, and is left as it was everywhere else.
\<close>

theorem init_sets_checkboxes:
  assumes "attrs_at (dom pg) p = Some a"
  shows "attrs_at (dom (page_of (studio_init_template_matching e well pid problem pg))) p =
     Some (a\<lparr>a_checked := a_checked a \<or>
        (strict_prefix well p \<and>
          (a_id a = Some (''unshuffle-'' @ pid)
             \<and> (case unshuffle problem of None \<Rightarrow> False | Some v \<Rightarrow> truthy v)
           \<or> a_id a = Some (''centralize-'' @ pid)
             \<and> (case centralize problem of None \<Rightarrow> False | Some v \<Rightarrow> truthy v)))\<rparr>)"
proof -
  let ?a' = "a\<lparr>a_checked := a_checked a \<or>
        (strict_prefix well p \<and>
          (a_id a = Some (''unshuffle-'' @ pid) \<and> present_and_truthy (unshuffle problem)
           \<or> a_id a = Some (''centralize-'' @ pid) \<and> present_and_truthy (centralize problem)))\<rparr>"
  have 0: "attrs_at (init_flags well pid problem (dom pg)) p = Some ?a'"
    using assms by (rule attrs_at_init_flags)
  have "attrs_at (dom (page_of (studio_init_template_matching e well pid problem pg))) p = Some ?a'"
    unfolding studio_init_template_matching_def Let_def
    by (intro and_then_frame create_each_frame) (simp_all add: 0)
  then show ?thesis by (simp add: present_and_truthy_def)
qed

theorem init_sets_checkboxes_witness:
  "attrs_at (dom (example_page example_template [])) [1, 0]
     = Some \<lparr>a_id = Some ''unshuffle-p'', a_class = [], a_checked = False, a_value = []\<rparr>
   \<and> attrs_at (dom (page_of (studio_init_template_matching example_env [1] ''p'' example_problem
        (example_page example_template [])))) [1, 0]
     = Some \<lparr>a_id = Some ''unshuffle-p'', a_class = [], a_checked = True, a_value = []\<rparr>
   \<and> attrs_at (dom (page_of (studio_init_template_matching example_env [1] ''p'' example_problem
        (example_page example_template [])))) [1, 1]
     = Some \<lparr>a_id = Some ''centralize-p'', a_class = [], a_checked = False, a_value = []\<rparr>"
proof -
  have u: "attrs_at (dom (example_page example_template [])) [1, 0]
     = Some \<lparr>a_id = Some ''unshuffle-p'', a_class = [], a_checked = False, a_value = []\<rparr>"
    by code_simp
  have c: "attrs_at (dom (example_page example_template [])) [1, 1]
     = Some \<lparr>a_id = Some ''centralize-p'', a_class = [], a_checked = False, a_value = []\<rparr>"
    by code_simp
  show ?thesis
    using u init_sets_checkboxes[OF u, of example_env "[1]" "''p''" example_problem]
      init_sets_checkboxes[OF c, of example_env "[1]" "''p''" example_problem]
    by (simp add: example_problem_def)
qed

text \<open>
  C5. When the three feedback elements exist, the initialisation registers three editors, in
  this order, on the elements with ids \<^verbatim>\<open>all_success_feedback-{pid}\<close>,
  \<^verbatim>\<open>partial_success_feedback-{pid}\<close> and \<^verbatim>\<open>all_error_feedback-{pid}\<close>, each with mode
  \<^verbatim>\<open>rst\<close> and the flag 1, holding the field's string, or the empty string when the field is
  absent. The editors registered before stay; those of the rows follow.
\<close>

theorem init_loads_feedback_editors:
  assumes "jq_id (''all_success_feedback-'' @ pid) (dom pg) = [p1]"
    and "jq_id (''partial_success_feedback-'' @ pid) (dom pg) = [p2]"
    and "jq_id (''all_error_feedback-'' @ pid) (dom pg) = [p3]"
  shows "\<exists>rest.
      editors (page_of (studio_init_template_matching e well pid problem pg)) =
        editors pg @
        [\<lparr>ed_target = InDocument p1, ed_mode = ''rst'', ed_lines = 1,
          ed_value = (case all_success_feedback problem of None \<Rightarrow> [] | Some s \<Rightarrow> s)\<rparr>,
         \<lparr>ed_target = InDocument p2, ed_mode = ''rst'', ed_lines = 1,
          ed_value = (case partial_success_feedback problem of None \<Rightarrow> [] | Some s \<Rightarrow> s)\<rparr>,
         \<lparr>ed_target = InDocument p3, ed_mode = ''rst'', ed_lines = 1,
          ed_value = (case all_error_feedback problem of None \<Rightarrow> [] | Some s \<Rightarrow> s)\<rparr>]
        @ rest"
proof -
  let ?pg3 = "pg\<lparr>dom := init_flags well pid problem (dom pg),
    editors := editors pg @
        [\<lparr>ed_target = InDocument p1, ed_mode = ''rst'', ed_lines = 1,
          ed_value = or_empty (all_success_feedback problem)\<rparr>,
         \<lparr>ed_target = InDocument p2, ed_mode = ''rst'', ed_lines = 1,
          ed_value = or_empty (partial_success_feedback problem)\<rparr>,
         \<lparr>ed_target = InDocument p3, ed_mode = ''rst'', ed_lines = 1,
          ed_value = or_empty (all_error_feedback problem)\<rparr>]\<rparr>"
  have "studio_init_template_matching e well pid problem pg
      = create_each e pid (questions problem) ?pg3"
    using assms
    by (simp add: studio_init_template_matching_def Let_def by_id_def jq_id_init_flags
        registerCodeEditor_setValue_def first_def)
  moreover obtain rest where
    "editors (page_of (create_each e pid (questions problem) ?pg3)) = editors ?pg3 @ rest"
    using editors_create_each by blast
  ultimately show ?thesis by (simp add: or_empty_def)
qed

theorem init_loads_feedback_editors_witness:
  "\<exists>rest.
      editors (page_of (studio_init_template_matching example_env [1] ''p'' example_problem
        (example_page example_template []))) =
        [\<lparr>ed_target = InDocument [1, 2], ed_mode = ''rst'', ed_lines = 1, ed_value = ''Well done''\<rparr>,
         \<lparr>ed_target = InDocument [1, 3], ed_mode = ''rst'', ed_lines = 1, ed_value = []\<rparr>,
         \<lparr>ed_target = InDocument [1, 4], ed_mode = ''rst'', ed_lines = 1, ed_value = []\<rparr>]
        @ rest"
  using init_loads_feedback_editors[OF example_feedback_elements,
      of example_env "[1]" example_problem]
  by (simp add: example_problem_def example_page_def)

text \<open>
  C6. In the new row, a control of class \<^verbatim>\<open>subproblem_matching_question\<close> receives the
  question text and one of class \<^verbatim>\<open>subproblem_matching_answer\<close> the answer text, each only
  when the field is present; every other control, and these two when the field is absent,
  keep the value the template gave them. The two feedback editors are registered on the
  first elements of the feedback classes, with mode \<^verbatim>\<open>rst\<close> and the flag 1, holding the
  field's string or the empty string.
\<close>

theorem create_loads_question_data:
  assumes tmpl: "jq_html e (jq_id ''subproblem_matching_questions'' (dom pg)) (dom pg) = Some row"
    and cont: "jq_find (has_id (''questions-'' @ pid))
                 (jq_id (studio_get_problem e pid) (dom pg)) (dom pg) = [t]"
    and new: "new_row = Node (plain\<lparr>a_id := Some (''question-'' @ dec (scan_index (dom pg) pid 0) @ ''-'' @ pid)\<rparr>)
                (html_parse e
                  (replace_all ''QUESTION'' (dec (scan_index (dom pg) pid 0)) (replace_all ''PID'' pid row)))"
    and succ: "select (has_class ''subproblem_matching_success_feedback'') new_row = s # ss"
    and err: "select (has_class ''subproblem_matching_error_feedback'') new_row = r # rs"
  shows "\<exists>pg'.
      studio_create_matching_question e pid qd pg = Done pg' \<and>
      editors pg' = editors pg @
        [\<lparr>ed_target = InDocument (t @ n_kids t (dom pg) # s), ed_mode = ''rst'', ed_lines = 1,
          ed_value = (case success_feedback qd of None \<Rightarrow> [] | Some v \<Rightarrow> v)\<rparr>,
         \<lparr>ed_target = InDocument (t @ n_kids t (dom pg) # r), ed_mode = ''rst'', ed_lines = 1,
          ed_value = (case error_feedback qd of None \<Rightarrow> [] | Some v \<Rightarrow> v)\<rparr>] \<and>
      (\<forall>q a0. q \<noteq> [] \<and> attrs_at new_row q = Some a0 \<longrightarrow>
         attrs_at (dom pg') (t @ n_kids t (dom pg) # q) =
           Some (a0\<lparr>a_value :=
             (case (if has_class ''subproblem_matching_answer'' a0 then answer qd else None) of
                Some v \<Rightarrow> v
              | None \<Rightarrow>
                 (case (if has_class ''subproblem_matching_question'' a0 then question qd else None) of
                    Some v \<Rightarrow> v
                  | None \<Rightarrow> a_value a0))\<rparr>))"
proof -
  have new': "new_row = new_row_of e pid (scan_index (dom pg) pid 0) row"
    by (simp add: new new_row_of_def)
  from cont obtain a ks where t: "node_at (dom pg) t = Some (Node a ks)"
    by (rule jq_find_single_valid)
  then have n: "n_kids t (dom pg) = length ks" by (simp add: n_kids_def)
  let ?at = "t @ [length ks]"
  let ?d1 = "append_child t new_row (dom pg)"
  let ?h = "fill_at qd ?at ?d1"
  have app: "jq_append
           (jq_find (has_id (''questions-'' @ pid)) (jq_id (studio_get_problem e pid) (dom pg)) (dom pg))
           (new_row_of e pid (scan_index (dom pg) pid 0) row) (dom pg) = (?d1, Some ?at)"
    unfolding cont new'[symmetric] by (simp add: n)
  have "node_at ?d1 t = Some (Node a (ks @ [new_row]))"
    using t node_at_modify_prefix[of _ t "[]" "dom pg"] by (simp add: append_child_def)
  then have row: "node_at ?h t = Some (Node a (ks @ [fill_row qd new_row]))"
    by (rule fill_at_row)
  then have at: "node_at ?h ?at = Some (fill_row qd new_row)"
    by (simp add: node_at_append)
  have find: "jq_find (has_class c) [?at] ?h = map ((@) ?at) (select (has_class c) new_row)" for c
    using at by (simp add: jq_find_def select_fill_row)
  have out: "studio_create_matching_question e pid qd pg =
      Done (pg\<lparr>dom := ?h, editors := editors pg @
        [\<lparr>ed_target = InDocument (?at @ s), ed_mode = ''rst'', ed_lines = 1,
          ed_value = or_empty (success_feedback qd)\<rparr>,
         \<lparr>ed_target = InDocument (?at @ r), ed_mode = ''rst'', ed_lines = 1,
          ed_value = or_empty (error_feedback qd)\<rparr>]\<rparr>)"
    unfolding create_attached[OF tmpl app] find succ err
    by (simp add: first_def registerCodeEditor_setValue_def)
  have vals: "attrs_at ?h (t @ length ks # q) = Some (a0\<lparr>a_value := expected_value qd a0\<rparr>)"
    if "q \<noteq> []" "attrs_at new_row q = Some a0" for q a0
  proof -
    have "attrs_at ?h (t @ length ks # q) = attrs_at (fill_row qd new_row) q"
      using row by (simp add: attrs_at_def node_at_append)
    with that attrs_at_fill_row[of new_row q a0 qd] show ?thesis by simp
  qed
  show ?thesis
    unfolding out n using vals
    by (simp add: or_empty_def expected_value_def)
qed

theorem create_loads_question_data_witness:
  "\<exists>pg'.
      studio_create_matching_question example_env ''p'' example_question
        (example_page example_template []) = Done pg' \<and>
      editors pg' =
        [\<lparr>ed_target = InDocument [1, 5, 0, 2], ed_mode = ''rst'', ed_lines = 1, ed_value = ''ok''\<rparr>,
         \<lparr>ed_target = InDocument [1, 5, 0, 3], ed_mode = ''rst'', ed_lines = 1, ed_value = []\<rparr>] \<and>
      attrs_at (dom pg') [1, 5, 0, 0]
        = Some \<lparr>a_id = None, a_class = [''subproblem_matching_question''], a_checked = False,
                a_value = ''2+2''\<rparr> \<and>
      attrs_at (dom pg') [1, 5, 0, 1]
        = Some \<lparr>a_id = None, a_class = [''subproblem_matching_answer''], a_checked = False,
                a_value = ''?''\<rparr>"
proof -
  define new_row where "new_row =
     Node (plain\<lparr>a_id := Some (''question-''
         @ dec (scan_index (dom (example_page example_template [])) ''p'' 0) @ ''-'' @ ''p'')\<rparr>)
       (html_parse example_env
         (replace_all ''QUESTION'' (dec (scan_index (dom (example_page example_template [])) ''p'' 0))
           (replace_all ''PID'' ''p''
             ''<input class=subproblem_matching_question><input class=subproblem_matching_answer value=?><input class=subproblem_matching_success_feedback><input class=subproblem_matching_error_feedback>'')))"
  have succ: "select (has_class ''subproblem_matching_success_feedback'') new_row = [2] # []"
    unfolding new_row_def by code_simp
  have err: "select (has_class ''subproblem_matching_error_feedback'') new_row = [3] # []"
    unfolding new_row_def by code_simp
  have q: "attrs_at new_row [0]
      = Some \<lparr>a_id = None, a_class = [''subproblem_matching_question''], a_checked = False,
               a_value = []\<rparr>"
    unfolding new_row_def by code_simp
  have a: "attrs_at new_row [1]
      = Some \<lparr>a_id = None, a_class = [''subproblem_matching_answer''], a_checked = False,
               a_value = ''?''\<rparr>"
    unfolding new_row_def by code_simp
  have n: "n_kids [1, 5] (dom (example_page example_template [])) = 0" by code_simp
  from create_loads_question_data[OF example_tmpl example_cont new_row_def succ err,
      of example_question]
  obtain pg' where
    1: "studio_create_matching_question example_env ''p'' example_question
        (example_page example_template []) = Done pg'"
    and 2: "editors pg' = editors (example_page example_template []) @
        [\<lparr>ed_target = InDocument ([1, 5] @ n_kids [1, 5] (dom (example_page example_template [])) # [2]),
          ed_mode = ''rst'', ed_lines = 1,
          ed_value = (case success_feedback example_question of None \<Rightarrow> [] | Some v \<Rightarrow> v)\<rparr>,
         \<lparr>ed_target = InDocument ([1, 5] @ n_kids [1, 5] (dom (example_page example_template [])) # [3]),
          ed_mode = ''rst'', ed_lines = 1,
          ed_value = (case error_feedback example_question of None \<Rightarrow> [] | Some v \<Rightarrow> v)\<rparr>]"
    and 3: "\<And>q a0. q \<noteq> [] \<Longrightarrow> attrs_at new_row q = Some a0 \<Longrightarrow>
         attrs_at (dom pg') ([1, 5] @ n_kids [1, 5] (dom (example_page example_template [])) # q) =
           Some (a0\<lparr>a_value :=
             (case (if has_class ''subproblem_matching_answer'' a0 then answer example_question else None) of
                Some v \<Rightarrow> v
              | None \<Rightarrow>
                 (case (if has_class ''subproblem_matching_question'' a0 then question example_question else None) of
                    Some v \<Rightarrow> v
                  | None \<Rightarrow> a_value a0))\<rparr>)"
    by blast
  have e: "editors pg' =
        [\<lparr>ed_target = InDocument [1, 5, 0, 2], ed_mode = ''rst'', ed_lines = 1, ed_value = ''ok''\<rparr>,
         \<lparr>ed_target = InDocument [1, 5, 0, 3], ed_mode = ''rst'', ed_lines = 1, ed_value = []\<rparr>]"
    using 2 unfolding n by (simp add: example_question_def example_page_def)
  have vq: "attrs_at (dom pg') [1, 5, 0, 0]
        = Some \<lparr>a_id = None, a_class = [''subproblem_matching_question''], a_checked = False,
                a_value = ''2+2''\<rparr>"
    using 3[OF _ q] unfolding n by (simp add: example_question_def has_class_def)
  have va: "attrs_at (dom pg') [1, 5, 0, 1]
        = Some \<lparr>a_id = None, a_class = [''subproblem_matching_answer''], a_checked = False,
                a_value = ''?''\<rparr>"
    using 3[OF _ a] unfolding n by (simp add: example_question_def has_class_def)
  show ?thesis
    by (intro conjI exI[of _ pg']) (fact 1 e vq va)+
qed



text \<open>
  C8. Deleting a row whose id no element of the document carries returns the page unchanged,
  and so does deleting it again.
\<close>

theorem delete_absent_row_is_noop:
  assumes "Some (''question-'' @ questionIndex @ ''-'' @ pid) \<notin> set (map (a_id \<circ> snd) (elements (dom pg)))"
  shows "studio_delete_matching_question pid questionIndex pg = pg
    \<and> studio_delete_matching_question pid questionIndex
          (studio_delete_matching_question pid questionIndex pg)
        = studio_delete_matching_question pid questionIndex pg"
proof -
  have "jq_id (''question-'' @ questionIndex @ ''-'' @ pid) (dom pg) = []"
    using assms jq_id_nonempty_iff[of "''question-'' @ questionIndex @ ''-'' @ pid" "dom pg"]
    by force
  then have "studio_delete_matching_question pid questionIndex pg = pg"
    unfolding studio_delete_matching_question_def by (simp add: jq_detach_def)
  then show ?thesis by simp
qed

theorem delete_absent_row_is_noop_witness:
  "Some (''question-'' @ ''7'' @ ''-'' @ ''p'')
      \<notin> set (map (a_id \<circ> snd) (elements (dom (example_page example_template [example_row 0]))))
   \<and> studio_delete_matching_question ''p'' ''7'' (example_page example_template [example_row 0])
     = example_page example_template [example_row 0]"
proof -
  have h: "Some (''question-'' @ ''7'' @ ''-'' @ ''p'')
      \<notin> set (map (a_id \<circ> snd) (elements (dom (example_page example_template [example_row 0]))))"
    by code_simp
  from h delete_absent_row_is_noop[OF h, THEN conjunct1] show ?thesis by (rule conjI)
qed


lemma substitution_example:
  "replace_all ''QUESTION'' (dec 2) (replace_all ''PID'' ''MYQUESTION'' ''<input name=PID-QUESTION>'')
     = ''<input name=MY2-2>''"
  by code_simp



end
